theory Spec2Isabelle
  imports Main "HOL-Library.Sublist"
begin

section \<open>Strings\<close>

text \<open>
  JavaScript strings are modelled as \<^typ>\<open>string\<close>. \<open>String.prototype.toLowerCase\<close> is
  modelled on the ASCII letters, the only letters a \<^typ>\<open>char\<close> of HOL can hold.
\<close>

definition toLowerChar :: "char \<Rightarrow> char" where
  "toLowerChar c =
     (case map_of (zip ''ABCDEFGHIJKLMNOPQRSTUVWXYZ'' ''abcdefghijklmnopqrstuvwxyz'') c of
        None \<Rightarrow> c
      | Some l \<Rightarrow> l)"

definition toLowerCase :: "string \<Rightarrow> string" where
  "toLowerCase s = map toLowerChar s"

text \<open>\<open>s.includes(q)\<close>: \<open>q\<close> occurs in \<open>s\<close> as a contiguous run, searched from the left.\<close>

fun str_includes :: "string \<Rightarrow> string \<Rightarrow> bool" where
  "str_includes [] q = (q = [])"
| "str_includes (c # cs) q = (prefix q (c # cs) \<or> str_includes cs q)"

text \<open>\<open>n.toString()\<close> for a clock reading: the decimal digits of a natural number.\<close>

definition digit_char :: "nat \<Rightarrow> char" where
  "digit_char d = ''0123456789'' ! d"

fun toString :: "nat \<Rightarrow> string" where
  "toString n = (if n < 10 then [digit_char n] else toString (n div 10) @ [digit_char (n mod 10)])"

declare toString.simps [simp del]

section \<open>Data model\<close>

text \<open>
  A due date is stored either as the millisecond timestamp that \<open>handleFormSubmit\<close> writes,
  as the string that \<open>loadTasksFromFirebase\<close> copies from the remote document, or as the
  \<open>NaN\<close> that \<open>new Date(s).getTime()\<close> yields for a string that is not a date.
  \<open>null\<close> and \<open>undefined\<close> are \<open>None\<close> in the task.
\<close>

datatype due = Ms int | Iso string | NaNDate

record subtask =
  st_text :: string
  st_completed :: bool

record file_meta =
  f_name :: string
  f_size :: nat
  f_type :: string
  f_lastModified :: nat
  f_url :: string

record task =
  tid :: string
  title :: string
  description :: string
  status :: string
  priority :: string
  dueDate :: "due option"
  pinned :: bool
  subtasks :: "subtask list"
  files :: "file_meta list"
  createdAt :: nat
  updatedAt :: "nat option"

text \<open>The snapshot \<open>{ ...taskToDelete, deletedAt: Date.now() }\<close>: a task with one more field.\<close>

record deleted_task = task +
  deletedAt :: nat

record state =
  tasks :: "task list"
  theme :: string
  filterQuery :: string
  priorityFilter :: string
  sortOrder :: string
  lastDeletedTask :: "deleted_task option"

definition COLUMNS :: "string list" where
  "COLUMNS = [''todo'', ''progress'', ''done'']"

definition initial_state :: state where
  "initial_state =
     \<lparr>tasks = [], theme = ''light'', filterQuery = '''', priorityFilter = ''all'',
      sortOrder = ''none'', lastDeletedTask = None\<rparr>"

section \<open>Array.prototype.sort\<close>

text \<open>
  What a comparison function of this program returns: a number, \<open>NaN\<close>, or an array.
  \<open>Array.prototype.sort\<close> converts the returned value with \<open>ToNumber\<close> and reads \<open>NaN\<close> as
  \<open>+0\<close>. An array converts through its \<open>toString\<close>: the empty array gives the empty string
  and so \<open>0\<close>; an array of task objects gives \<open>[object Object],...\<close> and so \<open>NaN\<close>.
\<close>

datatype 'a cmp_value = Num int | NaN | Arr "'a list"

fun to_number :: "'a cmp_value \<Rightarrow> int option" where
  "to_number (Num n) = Some n"
| "to_number NaN = None"
| "to_number (Arr xs) = (if xs = [] then Some 0 else None)"

definition sort_compare :: "('a \<Rightarrow> 'a \<Rightarrow> 'a cmp_value) \<Rightarrow> 'a \<Rightarrow> 'a \<Rightarrow> int" where
  "sort_compare comparefn x y = (case to_number (comparefn x y) of None \<Rightarrow> 0 | Some v \<Rightarrow> v)"

text \<open>
  The sort is stable (ECMAScript 2019): an element moves behind another one only when the
  comparison says it is greater. It is modelled as the stable insertion sort; every stable
  sort gives the same array when the comparison is consistent.
\<close>

fun insert_by :: "('a \<Rightarrow> 'a \<Rightarrow> int) \<Rightarrow> 'a \<Rightarrow> 'a list \<Rightarrow> 'a list" where
  "insert_by c x [] = [x]"
| "insert_by c x (y # ys) = (if c x y \<le> 0 then x # y # ys else y # insert_by c x ys)"

definition array_sort :: "('a \<Rightarrow> 'a \<Rightarrow> 'a cmp_value) \<Rightarrow> 'a list \<Rightarrow> 'a list" where
  "array_sort comparefn xs = foldr (insert_by (sort_compare comparefn)) xs []"

section \<open>Rendering: filter and order of a column\<close>

text \<open>Truthiness of \<open>task.dueDate\<close>: \<open>null\<close>, \<open>0\<close>, \<open>NaN\<close> and the empty string are falsy.\<close>

fun has_dueDate :: "due option \<Rightarrow> bool" where
  "has_dueDate None = False"
| "has_dueDate (Some (Ms n)) = (n \<noteq> 0)"
| "has_dueDate (Some (Iso s)) = (s \<noteq> [])"
| "has_dueDate (Some NaNDate) = False"

text \<open>
  \<open>new Date(d)\<close> read as a number: \<open>None\<close> is the invalid date. A timestamp is a valid date
  within 8.64e15 ms of the epoch; a string goes through the date parser of the browser,
  which is a parameter here.
\<close>

fun new_Date :: "(string \<Rightarrow> int option) \<Rightarrow> due \<Rightarrow> int option" where
  "new_Date parseDate (Ms n) = (if \<bar>n\<bar> \<le> 8640000000000000 then Some n else None)"
| "new_Date parseDate (Iso s) = parseDate s"
| "new_Date parseDate NaNDate = None"

definition date_of :: "(string \<Rightarrow> int option) \<Rightarrow> due option \<Rightarrow> int option" where
  "date_of parseDate d =
     (if has_dueDate d then (case d of None \<Rightarrow> Some 0 | Some v \<Rightarrow> new_Date parseDate v) else Some 0)"

fun date_minus :: "int option \<Rightarrow> int option \<Rightarrow> 'a cmp_value" where
  "date_minus (Some a) (Some b) = Num (a - b)"
| "date_minus _ _ = NaN"

definition dueDate_compare ::
  "(string \<Rightarrow> int option) \<Rightarrow> string \<Rightarrow> task \<Rightarrow> task \<Rightarrow> task cmp_value" where
  "dueDate_compare parseDate order' a b =
     (let dateA = date_of parseDate (dueDate a);
          dateB = date_of parseDate (dueDate b)
      in if \<not> has_dueDate (dueDate a) \<and> \<not> has_dueDate (dueDate b) then Num 0
         else if \<not> has_dueDate (dueDate a) then (if order' = ''asc'' then Num 1 else Num (- 1))
         else if \<not> has_dueDate (dueDate b) then (if order' = ''asc'' then Num (- 1) else Num 1)
         else if order' = ''asc'' then date_minus dateA dateB else date_minus dateB dateA)"

definition sortTasksByDueDate ::
  "(string \<Rightarrow> int option) \<Rightarrow> task list \<Rightarrow> string \<Rightarrow> task list" where
  "sortTasksByDueDate parseDate ts order' =
     (if order' = ''none'' then ts else array_sort (dueDate_compare parseDate order') ts)"

definition matchesSearch :: "state \<Rightarrow> task \<Rightarrow> bool" where
  "matchesSearch s t =
     (filterQuery s = [] \<or>
      str_includes (toLowerCase (title t)) (toLowerCase (filterQuery s)) \<or>
      (description t \<noteq> [] \<and>
       str_includes (toLowerCase (description t)) (toLowerCase (filterQuery s))))"

definition matchesPriority :: "state \<Rightarrow> task \<Rightarrow> bool" where
  "matchesPriority s t =
     (priorityFilter s = ''all'' \<or>
      (priority t \<noteq> [] \<and> toLowerCase (priority t) = priorityFilter s))"

definition column_filter :: "state \<Rightarrow> string \<Rightarrow> task \<Rightarrow> bool" where
  "column_filter s col t =
     (if status t \<noteq> col then False else matchesSearch s t \<and> matchesPriority s t)"

text \<open>The comparison function that \<open>renderBoard\<close> hands to \<open>columnTasks.sort\<close>.\<close>

definition render_compare ::
  "(string \<Rightarrow> int option) \<Rightarrow> string \<Rightarrow> task \<Rightarrow> task \<Rightarrow> task cmp_value" where
  "render_compare parseDate order' a b =
     (if pinned a \<and> \<not> pinned b then Num (- 1)
      else if \<not> pinned a \<and> pinned b then Num 1
      else if order' \<noteq> ''none'' then Arr (sortTasksByDueDate parseDate [a, b] order')
      else Num 0)"

definition columnTasks :: "(string \<Rightarrow> int option) \<Rightarrow> state \<Rightarrow> string \<Rightarrow> task list" where
  "columnTasks parseDate s col =
     array_sort (render_compare parseDate (sortOrder s)) (filter (column_filter s col) (tasks s))"

definition renderBoard :: "(string \<Rightarrow> int option) \<Rightarrow> state \<Rightarrow> (string \<times> task list) list" where
  "renderBoard parseDate s = map (\<lambda>col. (col, columnTasks parseDate s col)) COLUMNS"

section \<open>Mutations of the store\<close>

text \<open>\<open>state.tasks.find(t => t.id === id)\<close>: the first task with the id, if any.\<close>

definition find_task :: "string \<Rightarrow> task list \<Rightarrow> task option" where
  "find_task i ts = List.find (\<lambda>t. tid t = i) ts"

text \<open>
  The task objects are mutated in place through the reference that \<open>find\<close> returned: the
  array keeps its length and order, and the first task with the id is the one that changes.
\<close>

fun update_first :: "string \<Rightarrow> (task \<Rightarrow> task) \<Rightarrow> task list \<Rightarrow> task list" where
  "update_first i f [] = []"
| "update_first i f (t # ts) = (if tid t = i then f t # ts else t # update_first i f ts)"

definition updateTaskStatus :: "string \<Rightarrow> string \<Rightarrow> state \<Rightarrow> state" where
  "updateTaskStatus i status' s =
     (case find_task i (tasks s) of
        None \<Rightarrow> s
      | Some t \<Rightarrow> s\<lparr>tasks := update_first i (\<lambda>t. t\<lparr>status := status'\<rparr>) (tasks s)\<rparr>)"

definition togglePin :: "string \<Rightarrow> state \<Rightarrow> state" where
  "togglePin i s =
     (case find_task i (tasks s) of
        None \<Rightarrow> s
      | Some t \<Rightarrow> s\<lparr>tasks := update_first i (\<lambda>t. t\<lparr>pinned := \<not> pinned t\<rparr>) (tasks s)\<rparr>)"

text \<open>
  \<open>JSON.parse(JSON.stringify(task))\<close>: strings, numbers, booleans, \<open>null\<close> and arrays of plain
  objects come back as they were, a key holding \<open>undefined\<close> is left out (it reads as
  \<open>undefined\<close> again), and \<open>NaN\<close> is written as \<open>null\<close>.
\<close>

definition json_copy :: "task \<Rightarrow> task" where
  "json_copy t = t\<lparr>dueDate := (case dueDate t of Some NaNDate \<Rightarrow> None | d \<Rightarrow> d)\<rparr>"

text \<open>
  \<open>duplicateTask\<close> reads the clock three times: for the id, for \<open>createdAt\<close> and for
  \<open>updatedAt\<close>.
\<close>

definition duplicateTask :: "nat \<times> nat \<times> nat \<Rightarrow> string \<Rightarrow> state \<Rightarrow> state" where
  "duplicateTask clock i s =
     (case find_task i (tasks s) of
        None \<Rightarrow> s
      | Some taskToDuplicate \<Rightarrow>
          (let newTask = (json_copy taskToDuplicate)
                 \<lparr>tid := toString (fst clock),
                  createdAt := fst (snd clock),
                  updatedAt := Some (snd (snd clock))\<rparr>;
               newTask = (if str_includes (title newTask) '' (Copy)'' then newTask
                          else newTask\<lparr>title := title newTask @ '' (Copy)''\<rparr>)
           in s\<lparr>tasks := newTask # tasks s\<rparr>))"

subsection \<open>Undo closures\<close>

text \<open>
  The function handed to \<open>showToast\<close> as \<open>undoAction\<close>. The closure of \<open>deleteTask\<close> holds
  nothing of its own and reads \<open>state.lastDeletedTask\<close> when it runs; the closure of
  \<open>clearBoard\<close> holds \<open>previousTasks\<close>.
\<close>

datatype undo_action = UndoDelete | UndoClear "task list"

fun run_undo :: "undo_action \<Rightarrow> state \<Rightarrow> state" where
  "run_undo UndoDelete s =
     (case lastDeletedTask s of
        None \<Rightarrow> s
      | Some d \<Rightarrow> s\<lparr>tasks := tasks s @ [task.truncate d], lastDeletedTask := None\<rparr>)"
| "run_undo (UndoClear previousTasks) s = s\<lparr>tasks := previousTasks\<rparr>"

text \<open>Both return the new state and the undo closure of the toast they show, if they show one.\<close>

definition deleteTask :: "nat \<Rightarrow> string \<Rightarrow> state \<Rightarrow> state \<times> undo_action option" where
  "deleteTask now i s =
     (case find_task i (tasks s) of
        None \<Rightarrow> (s, None)
      | Some taskToDelete \<Rightarrow>
          (s\<lparr>lastDeletedTask := Some (task.extend taskToDelete (deleted_task.fields now)),
             tasks := filter (\<lambda>t. tid t \<noteq> i) (tasks s)\<rparr>,
           Some UndoDelete))"

definition clearBoard :: "state \<Rightarrow> state \<times> undo_action option" where
  "clearBoard s = (s\<lparr>tasks := []\<rparr>, Some (UndoClear (tasks s)))"

definition toggleSortOrder :: "state \<Rightarrow> state" where
  "toggleSortOrder s =
     s\<lparr>sortOrder := (if sortOrder s = ''none'' then ''asc''
                     else if sortOrder s = ''asc'' then ''desc'' else ''none'')\<rparr>"

section \<open>Loading and the task form\<close>

text \<open>
  A document of the remote collection, as \<open>doc.data()\<close> gives it. A field the document
  may lack is an option. \<open>d_createdAt\<close> is the number \<open>new Date(data.createdAt).getTime()\<close>
  of a \<open>createdAt\<close> that is there and truthy; no handler of the model reads \<open>createdAt\<close>.
\<close>

record remote_doc =
  d_id :: string
  d_title :: string
  d_status :: string
  d_dueDate :: "string option"
  d_createdAt :: "nat option"
  d_description :: "string option"
  d_priority :: "string option"

text \<open>\<open>x || dflt\<close> on a string that may be missing: a missing and an empty string are falsy.\<close>

fun or_else :: "string option \<Rightarrow> string \<Rightarrow> string" where
  "or_else None dflt = dflt"
| "or_else (Some x) dflt = (if x = [] then dflt else x)"

definition task_of_doc :: "nat \<Rightarrow> remote_doc \<Rightarrow> task" where
  "task_of_doc now d =
     \<lparr>tid = d_id d,
      title = d_title d,
      description = or_else (d_description d) [],
      status = d_status d,
      priority = or_else (d_priority d) ''medium'',
      dueDate = (case d_dueDate d of None \<Rightarrow> None | Some x \<Rightarrow> if x = [] then None else Some (Iso x)),
      pinned = False,
      subtasks = [],
      files = [],
      createdAt = (case d_createdAt d of None \<Rightarrow> now | Some c \<Rightarrow> c),
      updatedAt = None\<rparr>"

text \<open>
  \<open>loadTasksFromFirebase\<close> empties the store and then awaits \<open>getDocs\<close>; other handlers can
  run before it resumes. When it resumes, \<open>getDocs\<close> has either failed (\<open>None\<close>: the error
  is logged) or yielded the documents, which are pushed in their order onto the store as it
  is by then.
\<close>

definition loadTasksFromFirebase_start :: "state \<Rightarrow> state" where
  "loadTasksFromFirebase_start s = s\<lparr>tasks := []\<rparr>"

definition loadTasksFromFirebase_resume ::
  "nat \<Rightarrow> remote_doc list option \<Rightarrow> state \<Rightarrow> state" where
  "loadTasksFromFirebase_resume now querySnapshot s =
     (case querySnapshot of
        None \<Rightarrow> s
      | Some docs \<Rightarrow> s\<lparr>tasks := tasks s @ map (task_of_doc now) docs\<rparr>)"

text \<open>The whole function, when no other handler runs in between.\<close>

definition loadTasksFromFirebase :: "nat \<Rightarrow> remote_doc list option \<Rightarrow> state \<Rightarrow> state" where
  "loadTasksFromFirebase now querySnapshot s =
     loadTasksFromFirebase_resume now querySnapshot (loadTasksFromFirebase_start s)"

definition is_space :: "char \<Rightarrow> bool" where
  "is_space c = (c \<in> set [CHR 0x09, CHR 0x0A, CHR 0x0B, CHR 0x0C, CHR 0x0D, CHR 0x20])"

definition trim :: "string \<Rightarrow> string" where
  "trim x = rev (dropWhile is_space (rev (dropWhile is_space x)))"

text \<open>The values \<open>handleFormSubmit\<close> reads from the form and from the subtask list of the page.\<close>

record form =
  fm_id :: string
  fm_title :: string
  fm_description :: string
  fm_priority :: string
  fm_status :: string
  fm_dueDate :: string
  fm_subtasks :: "subtask list"

definition form_dueDate :: "(string \<Rightarrow> int option) \<Rightarrow> string \<Rightarrow> due option" where
  "form_dueDate parseDate x =
     (if x = [] then None
      else (case parseDate x of None \<Rightarrow> Some NaNDate | Some ms \<Rightarrow> Some (Ms ms)))"

text \<open>
  The clock is read for the id of a new task, for \<open>updatedAt\<close> and for \<open>createdAt\<close>.
  \<open>Object.assign\<close> overwrites the fields of the existing task and keeps its \<open>createdAt\<close>.
\<close>

definition handleFormSubmit ::
  "(string \<Rightarrow> int option) \<Rightarrow> nat \<times> nat \<times> nat \<Rightarrow> form \<Rightarrow> state \<Rightarrow> state" where
  "handleFormSubmit parseDate clock f s =
     (let i = (if fm_id f = [] then toString (fst clock) else fm_id f);
          title' = trim (fm_title f);
          description' = trim (fm_description f);
          currentSubtasks = fm_subtasks f
      in case find_task i (tasks s) of
           Some existingTask \<Rightarrow>
             s\<lparr>tasks := update_first i
                  (\<lambda>t. t\<lparr>tid := i,
                         title := (if title' = [] then ''Untitled Task'' else title'),
                         description := description',
                         priority := fm_priority f,
                         status := fm_status f,
                         dueDate := form_dueDate parseDate (fm_dueDate f),
                         pinned := pinned existingTask,
                         subtasks := (if currentSubtasks \<noteq> [] then currentSubtasks
                                      else subtasks existingTask),
                         files := files existingTask,
                         updatedAt := Some (fst (snd clock))\<rparr>)
                  (tasks s)\<rparr>
         | None \<Rightarrow>
             s\<lparr>tasks := tasks s @
                  [\<lparr>tid = i,
                    title = (if title' = [] then ''Untitled Task'' else title'),
                    description = description',
                    status = fm_status f,
                    priority = fm_priority f,
                    dueDate = form_dueDate parseDate (fm_dueDate f),
                    pinned = False,
                    subtasks = currentSubtasks,
                    files = [],
                    createdAt = snd (snd clock),
                    updatedAt = Some (fst (snd clock))\<rparr>]\<rparr>)"

section \<open>The board as a transition system\<close>

text \<open>
  The page holds the state and the toasts on screen that have an undo button, each with
  the undo closure of its button. An event is one handler run to its end, or to its
  \<open>await\<close>: the load, the form, the drop of a card on a column, the pin, duplicate and
  delete buttons, the clear button, the undo button of a toast, the sort button, the search
  box and the priority filter. A toast leaves the page when its undo button is clicked, when
  it is closed or when its timer ends; its closure can run only while it is on the page.
\<close>

record board =
  st :: state
  toasts :: "undo_action list"

datatype event =
    LoadStart
  | LoadDone nat "remote_doc list option"
  | Submit "nat \<times> nat \<times> nat" form
  | Drop string string
  | TogglePin string
  | Duplicate "nat \<times> nat \<times> nat" string
  | Delete nat string
  | ClearBoard
  | Undo nat
  | Dismiss nat
  | ToggleSort
  | Search string
  | PriorityFilter string

definition initial_board :: board where
  "initial_board = \<lparr>st = initial_state, toasts = []\<rparr>"

definition with_toast :: "board \<Rightarrow> state \<times> undo_action option \<Rightarrow> board" where
  "with_toast b r =
     (case snd r of
        None \<Rightarrow> b\<lparr>st := fst r\<rparr>
      | Some u \<Rightarrow> b\<lparr>st := fst r, toasts := toasts b @ [u]\<rparr>)"

definition remove_nth :: "nat \<Rightarrow> 'a list \<Rightarrow> 'a list" where
  "remove_nth n xs = take n xs @ drop (Suc n) xs"

fun step :: "(string \<Rightarrow> int option) \<Rightarrow> event \<Rightarrow> board \<Rightarrow> board" where
  "step parseDate LoadStart b = b\<lparr>st := loadTasksFromFirebase_start (st b)\<rparr>"
| "step parseDate (LoadDone now querySnapshot) b =
     b\<lparr>st := loadTasksFromFirebase_resume now querySnapshot (st b)\<rparr>"
| "step parseDate (Submit clock f) b = b\<lparr>st := handleFormSubmit parseDate clock f (st b)\<rparr>"
| "step parseDate (Drop taskId col) b = b\<lparr>st := updateTaskStatus taskId col (st b)\<rparr>"
| "step parseDate (TogglePin i) b = b\<lparr>st := togglePin i (st b)\<rparr>"
| "step parseDate (Duplicate clock i) b = b\<lparr>st := duplicateTask clock i (st b)\<rparr>"
| "step parseDate (Delete now i) b = with_toast b (deleteTask now i (st b))"
| "step parseDate ClearBoard b = with_toast b (clearBoard (st b))"
| "step parseDate (Undo n) b =
     (if n < length (toasts b)
      then b\<lparr>st := run_undo (toasts b ! n) (st b), toasts := remove_nth n (toasts b)\<rparr>
      else b)"
| "step parseDate (Dismiss n) b = b\<lparr>toasts := remove_nth n (toasts b)\<rparr>"
| "step parseDate ToggleSort b = b\<lparr>st := toggleSortOrder (st b)\<rparr>"
| "step parseDate (Search q) b = b\<lparr>st := (st b)\<lparr>filterQuery := q\<rparr>\<rparr>"
| "step parseDate (PriorityFilter p) b = b\<lparr>st := (st b)\<lparr>priorityFilter := p\<rparr>\<rparr>"

definition run :: "(string \<Rightarrow> int option) \<Rightarrow> event list \<Rightarrow> board \<Rightarrow> board" where
  "run parseDate evs b = fold (step parseDate) evs b"

section \<open>Properties as the specification words them\<close>

text \<open>
  The retention rule in the words of the specification: a case-insensitive substring match
  of the query against title or description, and a case-insensitive equality of the
  priority filter with the priority.
\<close>

definition ci_substring :: "string \<Rightarrow> string \<Rightarrow> bool" where
  "ci_substring q x = sublist (toLowerCase q) (toLowerCase x)"

definition ci_equal :: "string \<Rightarrow> string \<Rightarrow> bool" where
  "ci_equal x y = (toLowerCase x = toLowerCase y)"

definition retained_spec :: "state \<Rightarrow> task \<Rightarrow> bool" where
  "retained_spec s t =
     ((filterQuery s = [] \<or> ci_substring (filterQuery s) (title t)
         \<or> ci_substring (filterQuery s) (description t)) \<and>
      (priorityFilter s = ''all'' \<or> ci_equal (priorityFilter s) (priority t)))"

text \<open>
  The same rule with the priority test as the code has it: the priority of the task is
  folded to lower case, the priority filter is taken as it is stored, and a task without a
  priority matches no filter but \<open>all\<close>.
\<close>

definition retained_priority_as_stored :: "state \<Rightarrow> task \<Rightarrow> bool" where
  "retained_priority_as_stored s t =
     ((filterQuery s = [] \<or> ci_substring (filterQuery s) (title t)
         \<or> ci_substring (filterQuery s) (description t)) \<and>
      (priorityFilter s = ''all'' \<or>
       (priority t \<noteq> [] \<and> toLowerCase (priority t) = priorityFilter s)))"

text \<open>
  The status invariant, on the store, on the snapshot in the register and on the snapshots
  that the undo closures on the page hold: an undo puts these tasks back into the store.
\<close>

definition statuses_ok :: "task list \<Rightarrow> bool" where
  "statuses_ok ts = list_all (\<lambda>t. status t \<in> set COLUMNS) ts"

definition register_ok :: "state \<Rightarrow> bool" where
  "register_ok s = (case lastDeletedTask s of None \<Rightarrow> True | Some d \<Rightarrow> status d \<in> set COLUMNS)"

fun undo_ok :: "undo_action \<Rightarrow> bool" where
  "undo_ok UndoDelete = True"
| "undo_ok (UndoClear previousTasks) = statuses_ok previousTasks"

definition board_ok :: "board \<Rightarrow> bool" where
  "board_ok b = (statuses_ok (tasks (st b)) \<and> register_ok (st b) \<and> list_all undo_ok (toasts b))"

text \<open>
  The events that hand the store a status of the three columns: a load whose documents all
  carry one, a form whose status field holds one, a drop on one of the columns that
  \<open>renderBoard\<close> builds from \<open>COLUMNS\<close>.
\<close>

fun event_ok :: "event \<Rightarrow> bool" where
  "event_ok (LoadDone now None) = True"
| "event_ok (LoadDone now (Some docs)) = list_all (\<lambda>d. d_status d \<in> set COLUMNS) docs"
| "event_ok (Submit clock f) = (fm_status f \<in> set COLUMNS)"
| "event_ok (Drop taskId col) = (col \<in> set COLUMNS)"
| "event_ok _ = True"

section \<open>Example data\<close>

definition ex_task :: "string \<Rightarrow> string \<Rightarrow> due option \<Rightarrow> bool \<Rightarrow> task" where
  "ex_task i status' d p =
     \<lparr>tid = i, title = i, description = [], status = status', priority = ''medium'',
      dueDate = d, pinned = p, subtasks = [], files = [], createdAt = 0, updatedAt = None\<rparr>"

definition ex_state :: "task list \<Rightarrow> state" where
  "ex_state ts = initial_state\<lparr>tasks := ts\<rparr>"

definition ex_board :: "task list \<Rightarrow> board" where
  "ex_board ts = \<lparr>st = ex_state ts, toasts = []\<rparr>"

definition ex_june :: task where
  "ex_june = ex_task ''june'' ''todo'' (Some (Ms 1717200000000)) False"

definition ex_january :: task where
  "ex_january = ex_task ''january'' ''todo'' (Some (Ms 1704067200000)) False"

definition ex_doc :: "string \<Rightarrow> string \<Rightarrow> remote_doc" where
  "ex_doc i status' =
     \<lparr>d_id = i, d_title = i, d_status = status', d_dueDate = None, d_createdAt = None,
      d_description = None, d_priority = None\<rparr>"

definition ex_form :: "string \<Rightarrow> string \<Rightarrow> form" where
  "ex_form i status' =
     \<lparr>fm_id = i, fm_title = ''essay'', fm_description = [], fm_priority = ''high'',
      fm_status = status', fm_dueDate = [], fm_subtasks = []\<rparr>"

lemmas ex_defs = ex_state_def ex_board_def ex_task_def ex_june_def ex_january_def
  initial_state_def initial_board_def ex_doc_def ex_form_def

section \<open>The order of a column\<close>

lemma set_insert_by: "set (insert_by c x xs) = insert x (set xs)"
  by (induction xs) auto

lemma set_array_sort: "set (array_sort f xs) = set xs"
  unfolding array_sort_def by (induction xs) (simp_all add: set_insert_by)

lemma length_insert_by: "length (insert_by c x xs) = Suc (length xs)"
  by (induction xs) auto

lemma length_array_sort: "length (array_sort f xs) = length xs"
  unfolding array_sort_def by (induction xs) (simp_all add: length_insert_by)

lemma array_sort_pair_not_Nil: "sortTasksByDueDate parseDate [a, b] order' \<noteq> []"
proof -
  have "length (sortTasksByDueDate parseDate [a, b] order') = 2"
    by (simp add: sortTasksByDueDate_def length_array_sort)
  then show ?thesis by auto
qed

text \<open>
  \<open>renderBoard\<close> returns the array of \<open>sortTasksByDueDate\<close> from its comparison function.
  The array has two elements, converts to \<open>NaN\<close> and counts as \<open>0\<close>: the comparison
  tells two tasks apart by \<open>pinned\<close> only, whatever the sort order.
\<close>

lemma sort_compare_render:
  "sort_compare (render_compare parseDate order') a b =
     (if pinned a \<and> \<not> pinned b then - 1 else if \<not> pinned a \<and> pinned b then 1 else 0)"
  by (simp add: sort_compare_def render_compare_def array_sort_pair_not_Nil)

lemma insert_by_pinned:
  assumes "pinned x"
  shows "insert_by (sort_compare (render_compare parseDate order')) x ys = x # ys"
  using assms by (cases ys) (simp_all add: sort_compare_render)

lemma insert_by_unpinned:
  assumes "\<not> pinned x" and "\<forall>p \<in> set ps. pinned p" and "\<forall>u \<in> set us. \<not> pinned u"
  shows "insert_by (sort_compare (render_compare parseDate order')) x (ps @ us) = ps @ x # us"
  using assms
proof (induction ps)
  case Nil
  then show ?case by (cases us) (simp_all add: sort_compare_render)
next
  case (Cons p ps)
  then show ?case by (simp add: sort_compare_render)
qed

lemma array_sort_render:
  "array_sort (render_compare parseDate order') xs = filter pinned xs @ filter (\<lambda>t. \<not> pinned t) xs"
proof (induction xs)
  case Nil
  show ?case by (simp add: array_sort_def)
next
  case (Cons x xs)
  have step: "array_sort (render_compare parseDate order') (x # xs) =
      insert_by (sort_compare (render_compare parseDate order')) x
        (array_sort (render_compare parseDate order') xs)"
    by (simp add: array_sort_def)
  show ?case
  proof (cases "pinned x")
    case True
    then show ?thesis unfolding step Cons.IH by (simp add: insert_by_pinned)
  next
    case False
    then show ?thesis unfolding step Cons.IH by (simp add: insert_by_unpinned)
  qed
qed

lemma columnTasks_partition:
  "columnTasks parseDate s col =
     filter pinned (filter (column_filter s col) (tasks s)) @
     filter (\<lambda>t. \<not> pinned t) (filter (column_filter s col) (tasks s))"
  by (simp add: columnTasks_def array_sort_render)

lemma columnTasks_sortOrder:
  "columnTasks parseDate (s\<lparr>sortOrder := order'\<rparr>) col = columnTasks parseDate s col"
  by (simp add: columnTasks_partition column_filter_def matchesSearch_def matchesPriority_def)

text \<open>
  Claim C4. For every column and every value of \<open>sortOrder\<close>, the tasks shown in the column
  are the pinned tasks of the filtered bucket in store order, followed by the unpinned tasks
  of the bucket in store order: every pinned task comes before every unpinned one, and
  tasks of equal pinned status keep their relative store order.
\<close>

theorem pinned_first_stable:
  "columnTasks parseDate s col =
     filter pinned (filter (column_filter s col) (tasks s)) @
     filter (\<lambda>t. \<not> pinned t) (filter (column_filter s col) (tasks s))"
  by (rule columnTasks_partition)

theorem pinned_first_stable_witness:
  "columnTasks (\<lambda>x. None)
     ((ex_state [ex_task ''a'' ''todo'' None False, ex_task ''b'' ''done'' None True,
                 ex_task ''c'' ''todo'' (Some (Ms 5)) True, ex_task ''d'' ''todo'' (Some (Ms 9)) False,
                 ex_task ''e'' ''todo'' (Some (Ms 7)) True])\<lparr>sortOrder := ''desc''\<rparr>) ''todo'' =
   [ex_task ''c'' ''todo'' (Some (Ms 5)) True, ex_task ''e'' ''todo'' (Some (Ms 7)) True,
    ex_task ''a'' ''todo'' None False, ex_task ''d'' ''todo'' (Some (Ms 9)) False]"
  using pinned_first_stable [of "\<lambda>x. None"
     "(ex_state [ex_task ''a'' ''todo'' None False, ex_task ''b'' ''done'' None True,
                 ex_task ''c'' ''todo'' (Some (Ms 5)) True, ex_task ''d'' ''todo'' (Some (Ms 9)) False,
                 ex_task ''e'' ''todo'' (Some (Ms 7)) True])\<lparr>sortOrder := ''desc''\<rparr>" "''todo''"]
  by (simp add: column_filter_def matchesSearch_def matchesPriority_def ex_defs)

text \<open>
  On its own, \<open>sortTasksByDueDate\<close> orders two tasks by their dates: the task due in
  January 2024 comes before the task due in June 2024 when the order is \<open>asc\<close>.
\<close>

lemma sortTasksByDueDate_asc_example:
  "sortTasksByDueDate (\<lambda>x. None) [ex_june, ex_january] ''asc'' = [ex_january, ex_june]"
  by (simp add: sortTasksByDueDate_def array_sort_def sort_compare_def dueDate_compare_def
      date_of_def ex_defs)

text \<open>
  Claim C1. The claim asks for the column to be shown by ascending due date when \<open>sortOrder\<close>
  is \<open>asc\<close>, and by descending due date when it is \<open>desc\<close>. In the code the result of
  \<open>sortTasksByDueDate\<close> never reaches the sort as a number. With the task due on 2024-06-01
  stored before the task due on 2024-01-01, both unpinned and in the column \<open>todo\<close>, the
  column under \<open>asc\<close> shows them in store order, June first; with the two stored the other
  way round, the column under \<open>desc\<close> shows them in store order, January first.
\<close>

theorem sortOrder_keeps_store_order:
  "columnTasks (\<lambda>x. None) ((ex_state [ex_june, ex_january])\<lparr>sortOrder := ''asc''\<rparr>) ''todo'' =
     [ex_june, ex_january] \<and>
   columnTasks (\<lambda>x. None) ((ex_state [ex_january, ex_june])\<lparr>sortOrder := ''desc''\<rparr>) ''todo'' =
     [ex_january, ex_june]"
  by (simp add: columnTasks_partition column_filter_def matchesSearch_def matchesPriority_def
      ex_defs)

section \<open>The filter of a column\<close>

lemma str_includes_sublist: "str_includes x q = sublist q x"
  by (induction x) (auto simp: sublist_Cons_right)

lemma toLowerCase_Nil_iff: "toLowerCase x = [] \<longleftrightarrow> x = []"
  by (simp add: toLowerCase_def)

lemma toLowerCase_Nil: "toLowerCase [] = []"
  by (simp add: toLowerCase_def)

lemma matchesSearch_spec:
  "matchesSearch s t \<longleftrightarrow>
     (filterQuery s = [] \<or> ci_substring (filterQuery s) (title t)
        \<or> ci_substring (filterQuery s) (description t))"
  by (cases "description t = []")
     (auto simp: matchesSearch_def ci_substring_def str_includes_sublist toLowerCase_Nil_iff
        toLowerCase_Nil)

lemma priority_test_lower_case_filter:
  assumes "toLowerCase (priorityFilter s) = priorityFilter s" and "priorityFilter s \<noteq> []"
  shows "(priority t \<noteq> [] \<and> toLowerCase (priority t) = priorityFilter s) \<longleftrightarrow>
         ci_equal (priorityFilter s) (priority t)"
  using assms by (auto simp: ci_equal_def toLowerCase_Nil_iff)

lemma column_filter_as_stored:
  assumes "status t = col"
  shows "column_filter s col t \<longleftrightarrow> retained_priority_as_stored s t"
  using assms
  by (simp add: column_filter_def matchesSearch_spec matchesPriority_def
      retained_priority_as_stored_def)

text \<open>
  Claim C5, as the code has it. A task of the store whose status is the column's is shown in
  the column iff the query is empty or is a case-insensitive substring of its title or of
  its description, and the priority filter is \<open>all\<close> or the task has a priority whose
  lower-case form equals the priority filter as it is stored. When the stored filter is in
  lower case and not empty, as \<open>high\<close>, \<open>medium\<close> and \<open>low\<close> are, the priority test is the
  case-insensitive equality of filter and priority.
\<close>

theorem column_retains_priority_as_stored:
  assumes "t \<in> set (tasks s)" and "status t = col"
  shows "(t \<in> set (columnTasks parseDate s col) \<longleftrightarrow> retained_priority_as_stored s t) \<and>
         (toLowerCase (priorityFilter s) = priorityFilter s \<and> priorityFilter s \<noteq> [] \<longrightarrow>
            (retained_priority_as_stored s t \<longleftrightarrow> retained_spec s t))"
proof -
  have "t \<in> set (columnTasks parseDate s col) \<longleftrightarrow> retained_priority_as_stored s t"
    using assms(1) column_filter_as_stored [OF assms(2), of s]
    by (simp add: columnTasks_def set_array_sort)
  moreover have "retained_priority_as_stored s t \<longleftrightarrow> retained_spec s t"
    if "toLowerCase (priorityFilter s) = priorityFilter s" and "priorityFilter s \<noteq> []"
    using priority_test_lower_case_filter [OF that, of t]
    by (simp add: retained_priority_as_stored_def retained_spec_def)
  ultimately show ?thesis by blast
qed

theorem column_retains_priority_as_stored_witness:
  "(ex_task ''Lab REPORT'' ''todo'' None False)\<lparr>priority := ''High''\<rparr> \<in>
     set (tasks ((ex_state [(ex_task ''Lab REPORT'' ''todo'' None False)\<lparr>priority := ''High''\<rparr>])
          \<lparr>filterQuery := ''Report'', priorityFilter := ''high''\<rparr>)) \<and>
   status ((ex_task ''Lab REPORT'' ''todo'' None False)\<lparr>priority := ''High''\<rparr>) = ''todo'' \<and>
   (ex_task ''Lab REPORT'' ''todo'' None False)\<lparr>priority := ''High''\<rparr> \<in>
     set (columnTasks (\<lambda>x. None)
       ((ex_state [(ex_task ''Lab REPORT'' ''todo'' None False)\<lparr>priority := ''High''\<rparr>])
          \<lparr>filterQuery := ''Report'', priorityFilter := ''high''\<rparr>) ''todo'') \<and>
   retained_spec
       ((ex_state [(ex_task ''Lab REPORT'' ''todo'' None False)\<lparr>priority := ''High''\<rparr>])
          \<lparr>filterQuery := ''Report'', priorityFilter := ''high''\<rparr>)
       ((ex_task ''Lab REPORT'' ''todo'' None False)\<lparr>priority := ''High''\<rparr>)"
  using column_retains_priority_as_stored [of
       "(ex_task ''Lab REPORT'' ''todo'' None False)\<lparr>priority := ''High''\<rparr>"
       "(ex_state [(ex_task ''Lab REPORT'' ''todo'' None False)\<lparr>priority := ''High''\<rparr>])
          \<lparr>filterQuery := ''Report'', priorityFilter := ''high''\<rparr>"
       "''todo''" "\<lambda>x. None"]
  by (simp add: ex_defs toLowerCase_def toLowerChar_def retained_priority_as_stored_def
      retained_spec_def ci_substring_def ci_equal_def sublist_Cons_right)

text \<open>
  Claim C5, as stated, fails where the stored priority filter is not in lower case: with the
  filter \<open>High\<close>, a task of priority \<open>High\<close> in the column \<open>todo\<close> equals the filter
  case-insensitively, and the column does not show it.
\<close>

theorem priority_filter_case_counterexample:
  "(ex_task ''essay'' ''todo'' None False)\<lparr>priority := ''High''\<rparr> \<in>
     set (tasks ((ex_state [(ex_task ''essay'' ''todo'' None False)\<lparr>priority := ''High''\<rparr>])
          \<lparr>priorityFilter := ''High''\<rparr>)) \<and>
   status ((ex_task ''essay'' ''todo'' None False)\<lparr>priority := ''High''\<rparr>) = ''todo'' \<and>
   retained_spec
     ((ex_state [(ex_task ''essay'' ''todo'' None False)\<lparr>priority := ''High''\<rparr>])
        \<lparr>priorityFilter := ''High''\<rparr>)
     ((ex_task ''essay'' ''todo'' None False)\<lparr>priority := ''High''\<rparr>) \<and>
   columnTasks (\<lambda>x. None)
     ((ex_state [(ex_task ''essay'' ''todo'' None False)\<lparr>priority := ''High''\<rparr>])
        \<lparr>priorityFilter := ''High''\<rparr>) ''todo'' = []"
  by (simp add: ex_defs retained_spec_def ci_equal_def toLowerCase_def toLowerChar_def
      columnTasks_def array_sort_def column_filter_def matchesSearch_def matchesPriority_def)

section \<open>Mutations that name a task by its id\<close>

lemma find_task_Nil: "find_task i [] = None"
  by (simp add: find_task_def)

lemma find_task_Cons:
  "find_task i (t # ts) = (if tid t = i then Some t else find_task i ts)"
  by (simp add: find_task_def)

lemma find_task_None: "find_task i ts = None \<longleftrightarrow> i \<notin> set (map tid ts)"
  by (auto simp: find_task_def find_None_iff)

lemma find_task_SomeD: "find_task i ts = Some t \<Longrightarrow> t \<in> set ts \<and> tid t = i"
  by (induction ts) (auto simp: find_task_Nil find_task_Cons split: if_splits)

lemma update_first_index:
  assumes "find_task i ts = Some t"
  shows "\<exists>k < length ts. ts ! k = t \<and> (\<forall>j < k. tid (ts ! j) \<noteq> i) \<and> update_first i f ts = ts[k := f t]"
  using assms
proof (induction ts)
  case Nil
  then show ?case by (simp add: find_task_def)
next
  case (Cons a ts)
  show ?case
  proof (cases "tid a = i")
    case True
    with Cons.prems have "a = t" by (simp add: find_task_Cons)
    with True have "0 < length (a # ts) \<and> (a # ts) ! 0 = t \<and> (\<forall>j < 0. tid ((a # ts) ! j) \<noteq> i)
       \<and> update_first i f (a # ts) = (a # ts)[0 := f t]" by simp
    then show ?thesis by blast
  next
    case False
    with Cons.prems have "find_task i ts = Some t" by (simp add: find_task_Cons)
    from Cons.IH [OF this] obtain k where k: "k < length ts" "ts ! k = t"
      "\<forall>j < k. tid (ts ! j) \<noteq> i" "update_first i f ts = ts[k := f t]" by blast
    have "\<forall>j < Suc k. tid ((a # ts) ! j) \<noteq> i"
      using False k(3) by (auto simp: nth_Cons split: nat.splits)
    with False k have "Suc k < length (a # ts) \<and> (a # ts) ! Suc k = t \<and> (\<forall>j < Suc k. tid ((a # ts) ! j) \<noteq> i)
       \<and> update_first i f (a # ts) = (a # ts)[Suc k := f t]" by simp
    then show ?thesis by blast
  qed
qed

lemma update_first_same:
  assumes "find_task i ts = Some t" and "f t = t"
  shows "update_first i f ts = ts"
proof -
  from update_first_index [OF assms(1), of f] obtain k where
    "k < length ts" "ts ! k = t" "update_first i f ts = ts[k := f t]" by blast
  then show ?thesis using assms(2) by (simp add: list_update_same_conv)
qed

text \<open>
  Claim C7. For an id that no task of the store carries, the status update, the pin toggle,
  the duplication and the deletion return the state they were given, register included, and
  the deletion shows no toast; the handlers leave the page as it was. None of the four has a
  failing step on this path: each one ends at the test of what \<open>find\<close> returned.
\<close>

theorem missing_id_noop:
  assumes "i \<notin> set (map tid (tasks (st b)))"
  shows "updateTaskStatus i status' (st b) = st b \<and> togglePin i (st b) = st b \<and>
         duplicateTask clock i (st b) = st b \<and> deleteTask now i (st b) = (st b, None) \<and>
         step parseDate (Drop i status') b = b \<and> step parseDate (TogglePin i) b = b \<and>
         step parseDate (Duplicate clock i) b = b \<and> step parseDate (Delete now i) b = b"
proof -
  have "find_task i (tasks (st b)) = None" using assms by (simp add: find_task_None)
  then show ?thesis
    by (simp add: updateTaskStatus_def togglePin_def duplicateTask_def deleteTask_def
        with_toast_def)
qed

theorem missing_id_noop_witness:
  "''zz'' \<notin> set (map tid (tasks (st (ex_board [ex_june])))) \<and>
   updateTaskStatus ''zz'' ''done'' (st (ex_board [ex_june])) = st (ex_board [ex_june]) \<and>
   togglePin ''zz'' (st (ex_board [ex_june])) = st (ex_board [ex_june]) \<and>
   duplicateTask (1, 2, 3) ''zz'' (st (ex_board [ex_june])) = st (ex_board [ex_june]) \<and>
   deleteTask 4 ''zz'' (st (ex_board [ex_june])) = (st (ex_board [ex_june]), None) \<and>
   step (\<lambda>x. None) (Drop ''zz'' ''done'') (ex_board [ex_june]) = ex_board [ex_june] \<and>
   step (\<lambda>x. None) (Delete 4 ''zz'') (ex_board [ex_june]) = ex_board [ex_june]"
proof -
  have h: "''zz'' \<notin> set (map tid (tasks (st (ex_board [ex_june]))))"
    by (simp add: ex_defs)
  show ?thesis
    using h missing_id_noop [OF h, of "''done''" "(1, 2, 3)" 4 "\<lambda>x. None"] by blast
qed

text \<open>
  Claim C8. A drop of a task of the store on the column of its current status leaves the
  page as it was. A drop on any column writes the column into the status of that task, the
  first one with the id, and changes no other task and no other field of the state.
\<close>

theorem drop_frame:
  assumes "find_task taskId (tasks (st b)) = Some t"
  shows "(status t = col \<longrightarrow> step parseDate (Drop taskId col) b = b) \<and>
         (\<exists>k < length (tasks (st b)). tasks (st b) ! k = t \<and>
            step parseDate (Drop taskId col) b =
              b\<lparr>st := (st b)\<lparr>tasks := (tasks (st b))[k := t\<lparr>status := col\<rparr>]\<rparr>\<rparr>)"
proof -
  have "status t = col \<Longrightarrow> update_first taskId (\<lambda>t. t\<lparr>status := col\<rparr>) (tasks (st b)) = tasks (st b)"
    using update_first_same [OF assms, of "\<lambda>t. t\<lparr>status := col\<rparr>"] by auto
  moreover from update_first_index [OF assms, of "\<lambda>t. t\<lparr>status := col\<rparr>"] obtain k where
    "k < length (tasks (st b))" "tasks (st b) ! k = t"
    "update_first taskId (\<lambda>t. t\<lparr>status := col\<rparr>) (tasks (st b)) = (tasks (st b))[k := t\<lparr>status := col\<rparr>]"
    by blast
  ultimately show ?thesis using assms by (auto simp: updateTaskStatus_def)
qed

theorem drop_frame_witness:
  "find_task ''june'' (tasks (st (ex_board [ex_january, ex_june]))) = Some ex_june \<and>
   step (\<lambda>x. None) (Drop ''june'' ''todo'') (ex_board [ex_january, ex_june]) =
     ex_board [ex_january, ex_june]"
  using drop_frame [of "''june''" "ex_board [ex_january, ex_june]" ex_june "''todo''" "\<lambda>x. None"]
  by (simp add: ex_defs find_task_def)

text \<open>
  Claim C9. The sort toggle changes the field \<open>sortOrder\<close> only, so the tasks stay as they
  are; it takes \<open>none\<close> to \<open>asc\<close>, \<open>asc\<close> to \<open>desc\<close> and \<open>desc\<close> to \<open>none\<close>.
\<close>

theorem toggleSortOrder_cycle:
  "toggleSortOrder s = s\<lparr>sortOrder := sortOrder (toggleSortOrder s)\<rparr> \<and>
   tasks (toggleSortOrder s) = tasks s \<and>
   (sortOrder s = ''none'' \<longrightarrow> sortOrder (toggleSortOrder s) = ''asc'') \<and>
   (sortOrder s = ''asc'' \<longrightarrow> sortOrder (toggleSortOrder s) = ''desc'') \<and>
   (sortOrder s = ''desc'' \<longrightarrow> sortOrder (toggleSortOrder s) = ''none'')"
  by (simp add: toggleSortOrder_def)

theorem toggleSortOrder_cycle_witness:
  "sortOrder initial_state = ''none'' \<and>
   sortOrder (toggleSortOrder initial_state) = ''asc'' \<and>
   sortOrder (toggleSortOrder (toggleSortOrder initial_state)) = ''desc'' \<and>
   sortOrder (toggleSortOrder (toggleSortOrder (toggleSortOrder initial_state))) = ''none''"
  using toggleSortOrder_cycle [of initial_state]
    toggleSortOrder_cycle [of "toggleSortOrder initial_state"]
    toggleSortOrder_cycle [of "toggleSortOrder (toggleSortOrder initial_state)"]
  by (simp add: initial_state_def)

lemma json_copy_eq:
  "json_copy t = t\<lparr>dueDate := (if dueDate t = Some NaNDate then None else dueDate t)\<rparr>"
  by (cases "dueDate t") (auto simp: json_copy_def split: due.splits)

lemma title_json_copy: "title (json_copy t) = title t"
  by (simp add: json_copy_def)

text \<open>
  Claim C10. For an id of the store, the duplication puts one new task in front of the
  store and leaves the tasks that were there as they were, in their order: the store grows
  by one. The new task has the fields of the first task with the id, but for the clock
  readings as id, \<open>createdAt\<close> and \<open>updatedAt\<close>, and for \<open> (Copy)\<close> appended to the title
  unless the title contains it already; a due date that is \<open>NaN\<close> is copied as \<open>null\<close>, as
  JSON writes it. The ids stay distinct when no task carries the new id yet.
\<close>

theorem duplicateTask_front:
  assumes "find_task i (tasks s) = Some t"
  shows "duplicateTask (n1, n2, n3) i s =
           s\<lparr>tasks := t\<lparr>tid := toString n1, createdAt := n2, updatedAt := Some n3,
                  title := (if str_includes (title t) '' (Copy)'' then title t
                            else title t @ '' (Copy)''),
                  dueDate := (if dueDate t = Some NaNDate then None else dueDate t)\<rparr>
                # tasks s\<rparr> \<and>
         tl (tasks (duplicateTask (n1, n2, n3) i s)) = tasks s \<and>
         length (tasks (duplicateTask (n1, n2, n3) i s)) = Suc (length (tasks s)) \<and>
         (distinct (map tid (tasks s)) \<and> toString n1 \<notin> set (map tid (tasks s)) \<longrightarrow>
            distinct (map tid (tasks (duplicateTask (n1, n2, n3) i s))))"
proof -
  have d: "duplicateTask (n1, n2, n3) i s =
           s\<lparr>tasks := t\<lparr>tid := toString n1, createdAt := n2, updatedAt := Some n3,
                  title := (if str_includes (title t) '' (Copy)'' then title t
                            else title t @ '' (Copy)''),
                  dueDate := (if dueDate t = Some NaNDate then None else dueDate t)\<rparr>
                # tasks s\<rparr>"
    using assms by (simp add: duplicateTask_def Let_def title_json_copy) (simp add: json_copy_eq)
  show ?thesis unfolding d by simp
qed

theorem duplicateTask_front_witness:
  "find_task ''june'' (tasks (ex_state [ex_january, ex_june])) = Some ex_june \<and>
   tasks (duplicateTask (1718000000000, 1718000000001, 1718000000002) ''june''
           (ex_state [ex_january, ex_june])) =
     [ex_june\<lparr>tid := ''1718000000000'', createdAt := 1718000000001,
              updatedAt := Some 1718000000002, title := ''june (Copy)''\<rparr>,
      ex_january, ex_june]"
  using duplicateTask_front [of "''june''" "ex_state [ex_january, ex_june]" ex_june
      1718000000000 1718000000001 1718000000002]
  by (simp add: ex_defs find_task_def toString.simps digit_char_def)

section \<open>Delete, clear and undo\<close>

lemma filter_other_ids:
  assumes "distinct (map tid ts)" and "find_task i ts = Some t"
  shows "set (filter (\<lambda>x. tid x \<noteq> i) ts) = set ts - {t} \<and>
         Suc (length (filter (\<lambda>x. tid x \<noteq> i) ts)) = length ts"
  using assms
proof (induction ts)
  case Nil
  then show ?case by (simp add: find_task_Nil)
next
  case (Cons a ts)
  show ?case
  proof (cases "tid a = i")
    case True
    with Cons.prems have at: "a = t" by (simp add: find_task_Cons)
    from Cons.prems(1) have "tid a \<notin> tid ` set ts" by simp
    with True have "\<forall>x \<in> set ts. tid x \<noteq> i" by blast
    then have "filter (\<lambda>x. tid x \<noteq> i) ts = ts" by (simp add: filter_id_conv)
    moreover from True Cons.prems(1) at have "t \<notin> set ts" by auto
    ultimately show ?thesis using True at by auto
  next
    case False
    with Cons.prems have f: "find_task i ts = Some t" by (simp add: find_task_Cons)
    from Cons.prems(1) have "distinct (map tid ts)" by simp
    from Cons.IH [OF this f] find_task_SomeD [OF f] False show ?thesis by auto
  qed
qed

lemma snapshot_fields:
  "deletedAt (task.extend t (deleted_task.fields now)) = now \<and>
   task.truncate (task.extend t (deleted_task.fields now)) = t"
  by (simp add: task.defs deleted_task.defs)

text \<open>
  Claim C6. In a store of distinct ids, deleting the task of an id puts the task, tagged
  with the clock reading as \<open>deletedAt\<close>, into the register and takes it out of the store.
  The undo of the toast then appends the task without the tag: the store holds the same
  tasks as before the deletion, as many as before, and the register is empty.
\<close>

theorem delete_then_undo:
  assumes "distinct (map tid (tasks s))" and "find_task i (tasks s) = Some t"
  shows "deleteTask now i s =
           (s\<lparr>lastDeletedTask := Some (task.extend t (deleted_task.fields now)),
              tasks := filter (\<lambda>x. tid x \<noteq> i) (tasks s)\<rparr>, Some UndoDelete) \<and>
         deletedAt (task.extend t (deleted_task.fields now)) = now \<and>
         task.truncate (task.extend t (deleted_task.fields now)) = t \<and>
         t \<notin> set (tasks (fst (deleteTask now i s))) \<and>
         run_undo UndoDelete (fst (deleteTask now i s)) =
           s\<lparr>tasks := filter (\<lambda>x. tid x \<noteq> i) (tasks s) @ [t], lastDeletedTask := None\<rparr> \<and>
         set (tasks (run_undo UndoDelete (fst (deleteTask now i s)))) = set (tasks s) \<and>
         length (tasks (run_undo UndoDelete (fst (deleteTask now i s)))) = length (tasks s) \<and>
         lastDeletedTask (run_undo UndoDelete (fst (deleteTask now i s))) = None"
proof -
  have d: "deleteTask now i s =
           (s\<lparr>lastDeletedTask := Some (task.extend t (deleted_task.fields now)),
              tasks := filter (\<lambda>x. tid x \<noteq> i) (tasks s)\<rparr>, Some UndoDelete)"
    using assms(2) by (simp add: deleteTask_def)
  have u: "run_undo UndoDelete (fst (deleteTask now i s)) =
           s\<lparr>tasks := filter (\<lambda>x. tid x \<noteq> i) (tasks s) @ [t], lastDeletedTask := None\<rparr>"
    unfolding d by (simp add: snapshot_fields)
  from filter_other_ids [OF assms] have f:
    "set (filter (\<lambda>x. tid x \<noteq> i) (tasks s)) = set (tasks s) - {t}"
    "Suc (length (filter (\<lambda>x. tid x \<noteq> i) (tasks s))) = length (tasks s)" by simp_all
  have m: "t \<in> set (tasks s)" using find_task_SomeD [OF assms(2)] by simp
  have "t \<notin> set (tasks (fst (deleteTask now i s)))"
    unfolding d using f(1) by simp
  moreover have "set (tasks (run_undo UndoDelete (fst (deleteTask now i s)))) = set (tasks s)"
    unfolding u using f(1) m by auto
  moreover have "length (tasks (run_undo UndoDelete (fst (deleteTask now i s)))) = length (tasks s)"
    unfolding u using f(2) by simp
  moreover have "lastDeletedTask (run_undo UndoDelete (fst (deleteTask now i s))) = None"
    unfolding u by simp
  ultimately show ?thesis using d u snapshot_fields [of t now] by simp
qed

theorem delete_then_undo_witness:
  "distinct (map tid (tasks (ex_state [ex_june, ex_january]))) \<and>
   find_task ''june'' (tasks (ex_state [ex_june, ex_january])) = Some ex_june \<and>
   tasks (fst (deleteTask 7 ''june'' (ex_state [ex_june, ex_january]))) = [ex_january] \<and>
   run_undo UndoDelete (fst (deleteTask 7 ''june'' (ex_state [ex_june, ex_january]))) =
     ex_state [ex_january, ex_june]"
  using delete_then_undo [of "ex_state [ex_june, ex_january]" "''june''" ex_june 7]
  by (simp add: ex_defs find_task_def)

text \<open>
  Claim C2, as the code has it. The register holds the snapshot of the latest deletion
  only: after two deletions it holds the second task, the undo of either toast appends the
  second task and empties the register, and a further undo changes nothing. \<open>clearBoard\<close>
  does not write the register: it keeps the tasks it removed in the closure of its own toast.
\<close>

theorem register_single_slot:
  assumes "find_task i1 (tasks s) = Some t1"
    and "find_task i2 (tasks (fst (deleteTask n1 i1 s))) = Some t2"
  shows "snd (deleteTask n1 i1 s) = Some UndoDelete \<and>
         snd (deleteTask n2 i2 (fst (deleteTask n1 i1 s))) = Some UndoDelete \<and>
         lastDeletedTask (fst (deleteTask n2 i2 (fst (deleteTask n1 i1 s)))) =
           Some (task.extend t2 (deleted_task.fields n2)) \<and>
         tasks (run_undo UndoDelete (fst (deleteTask n2 i2 (fst (deleteTask n1 i1 s))))) =
           tasks (fst (deleteTask n2 i2 (fst (deleteTask n1 i1 s)))) @ [t2] \<and>
         run_undo UndoDelete (run_undo UndoDelete (fst (deleteTask n2 i2 (fst (deleteTask n1 i1 s))))) =
           run_undo UndoDelete (fst (deleteTask n2 i2 (fst (deleteTask n1 i1 s)))) \<and>
         lastDeletedTask (fst (clearBoard s)) = lastDeletedTask s \<and>
         snd (clearBoard s) = Some (UndoClear (tasks s))"
proof -
  have a: "snd (deleteTask n1 i1 s) = Some UndoDelete"
    using assms(1) by (simp add: deleteTask_def)
  have b: "deleteTask n2 i2 (fst (deleteTask n1 i1 s)) =
      ((fst (deleteTask n1 i1 s))\<lparr>lastDeletedTask := Some (task.extend t2 (deleted_task.fields n2)),
         tasks := filter (\<lambda>x. tid x \<noteq> i2) (tasks (fst (deleteTask n1 i1 s)))\<rparr>, Some UndoDelete)"
    using assms(2) by (simp add: deleteTask_def)
  show ?thesis unfolding b using a
    by (simp add: snapshot_fields clearBoard_def)
qed

theorem register_single_slot_witness:
  "find_task ''june'' (tasks (ex_state [ex_june, ex_january])) = Some ex_june \<and>
   find_task ''january'' (tasks (fst (deleteTask 7 ''june'' (ex_state [ex_june, ex_january])))) =
     Some ex_january \<and>
   tasks (run_undo UndoDelete
     (fst (deleteTask 8 ''january'' (fst (deleteTask 7 ''june'' (ex_state [ex_june, ex_january])))))) =
     [ex_january]"
  using register_single_slot [of "''june''" "ex_state [ex_june, ex_january]" ex_june
      "''january''" 7 ex_january 8]
  by (simp add: ex_defs find_task_def deleteTask_def)

text \<open>
  Claim C2, as stated, fails: a deletion followed by a clear leaves the deleted task in the
  register and the cleared tasks in the closure of the second toast. With both toasts on
  the page, undoing the clear and then the deletion restores both.
\<close>

theorem clear_keeps_deleted_snapshot_counterexample:
  "lastDeletedTask (st (run (\<lambda>x. None) [Delete 7 ''june'', ClearBoard] (ex_board [ex_june, ex_january])))
     = Some (task.extend ex_june (deleted_task.fields 7)) \<and>
   toasts (run (\<lambda>x. None) [Delete 7 ''june'', ClearBoard] (ex_board [ex_june, ex_january]))
     = [UndoDelete, UndoClear [ex_january]] \<and>
   tasks (st (run (\<lambda>x. None) [Delete 7 ''june'', ClearBoard, Undo 1, Undo 0]
                (ex_board [ex_june, ex_january]))) = [ex_january, ex_june]"
  by (simp add: run_def with_toast_def deleteTask_def clearBoard_def find_task_def remove_nth_def
      snapshot_fields ex_defs)

section \<open>The status of a task\<close>

lemma statuses_ok_update_first:
  assumes "statuses_ok ts"
    and "\<And>t. status t \<in> set COLUMNS \<Longrightarrow> status (f t) \<in> set COLUMNS"
  shows "statuses_ok (update_first i f ts)"
  using assms by (induction ts) (auto simp: statuses_ok_def)

lemma statuses_ok_find:
  "statuses_ok ts \<Longrightarrow> find_task i ts = Some t \<Longrightarrow> status t \<in> set COLUMNS"
  using find_task_SomeD [of i ts t] by (auto simp: statuses_ok_def list_all_iff)

lemma status_snapshot:
  "status (task.extend t (deleted_task.fields now)) = status t"
  by (simp add: task.defs)

lemma status_truncate: "status (task.truncate d) = status d"
  by (simp add: task.defs)

lemma list_all_remove_nth: "list_all P xs \<Longrightarrow> list_all P (remove_nth n xs)"
  by (auto simp: remove_nth_def list_all_iff dest: in_set_takeD in_set_dropD)

lemma ok_load_start:
  assumes "board_ok b"
  shows "board_ok (step parseDate LoadStart b)"
  using assms
  by (simp add: board_ok_def loadTasksFromFirebase_start_def statuses_ok_def register_ok_def)

lemma ok_load_done:
  assumes "event_ok (LoadDone now q)" and "board_ok b"
  shows "board_ok (step parseDate (LoadDone now q) b)"
proof (cases q)
  case None
  with assms(2) show ?thesis
    by (simp add: board_ok_def loadTasksFromFirebase_resume_def)
next
  case (Some docs)
  have "status (task_of_doc now d) = d_status d" for d
    by (simp add: task_of_doc_def)
  with assms(1) Some have "statuses_ok (map (task_of_doc now) docs)"
    by (simp add: statuses_ok_def list_all_iff)
  with assms(2) Some show ?thesis
    by (simp add: board_ok_def loadTasksFromFirebase_resume_def statuses_ok_def register_ok_def)
qed

lemma ok_submit:
  assumes "event_ok (Submit clock f)" and "board_ok b"
  shows "board_ok (step parseDate (Submit clock f) b)"
proof -
  have v: "fm_status f \<in> set COLUMNS" using assms(1) by simp
  have s: "statuses_ok (tasks (st b))" using assms(2) by (simp add: board_ok_def)
  define i where "i = (if fm_id f = [] then toString (fst clock) else fm_id f)"
  have "statuses_ok (tasks (handleFormSubmit parseDate clock f (st b)))"
  proof (cases "find_task i (tasks (st b))")
    case None
    then show ?thesis using v s
      by (simp add: handleFormSubmit_def Let_def statuses_ok_def i_def [symmetric])
  next
    case (Some e)
    have "statuses_ok (update_first i g (tasks (st b)))"
      if "\<And>t. status (g t) = fm_status f" for g
      by (rule statuses_ok_update_first [OF s]) (simp add: that v)
    then show ?thesis using Some
      by (simp add: handleFormSubmit_def Let_def i_def [symmetric])
  qed
  moreover have "lastDeletedTask (handleFormSubmit parseDate clock f (st b)) = lastDeletedTask (st b)"
    by (simp add: handleFormSubmit_def Let_def split: option.splits)
  ultimately show ?thesis using assms(2) by (simp add: board_ok_def register_ok_def)
qed

lemma ok_drop:
  assumes "event_ok (Drop i col)" and "board_ok b"
  shows "board_ok (step parseDate (Drop i col) b)"
proof -
  have v: "col \<in> set COLUMNS" using assms(1) by simp
  have s: "statuses_ok (tasks (st b))" using assms(2) by (simp add: board_ok_def)
  have "statuses_ok (update_first i (\<lambda>t. t\<lparr>status := col\<rparr>) (tasks (st b)))"
    by (rule statuses_ok_update_first [OF s]) (simp add: v)
  then have "statuses_ok (tasks (updateTaskStatus i col (st b)))"
    using s by (simp add: updateTaskStatus_def split: option.splits)
  moreover have "lastDeletedTask (updateTaskStatus i col (st b)) = lastDeletedTask (st b)"
    by (simp add: updateTaskStatus_def split: option.splits)
  ultimately show ?thesis using assms(2) by (simp add: board_ok_def register_ok_def)
qed

lemma ok_pin:
  assumes "board_ok b"
  shows "board_ok (step parseDate (TogglePin i) b)"
proof -
  have s: "statuses_ok (tasks (st b))" using assms by (simp add: board_ok_def)
  have "statuses_ok (update_first i (\<lambda>t. t\<lparr>pinned := \<not> pinned t\<rparr>) (tasks (st b)))"
    by (rule statuses_ok_update_first [OF s]) simp
  then have "statuses_ok (tasks (togglePin i (st b)))"
    using s by (simp add: togglePin_def split: option.splits)
  moreover have "lastDeletedTask (togglePin i (st b)) = lastDeletedTask (st b)"
    by (simp add: togglePin_def split: option.splits)
  ultimately show ?thesis using assms by (simp add: board_ok_def register_ok_def)
qed

lemma ok_duplicate:
  assumes "board_ok b"
  shows "board_ok (step parseDate (Duplicate clock i) b)"
proof (cases "find_task i (tasks (st b))")
  case None
  then show ?thesis using assms by (simp add: duplicateTask_def)
next
  case (Some t)
  have s: "statuses_ok (tasks (st b))" using assms by (simp add: board_ok_def)
  have "status t \<in> set COLUMNS" by (rule statuses_ok_find [OF s Some])
  then show ?thesis using assms Some
    by (simp add: duplicateTask_def Let_def board_ok_def register_ok_def statuses_ok_def
        json_copy_def)
qed

lemma ok_delete:
  assumes "board_ok b"
  shows "board_ok (step parseDate (Delete now i) b)"
proof (cases "find_task i (tasks (st b))")
  case None
  then show ?thesis using assms by (simp add: deleteTask_def with_toast_def)
next
  case (Some t)
  have s: "statuses_ok (tasks (st b))" using assms by (simp add: board_ok_def)
  have "status t \<in> set COLUMNS" by (rule statuses_ok_find [OF s Some])
  then show ?thesis using assms Some
    by (simp add: deleteTask_def with_toast_def board_ok_def register_ok_def statuses_ok_def
        status_snapshot list_all_iff)
qed

lemma ok_clear:
  assumes "board_ok b"
  shows "board_ok (step parseDate ClearBoard b)"
  using assms by (simp add: clearBoard_def with_toast_def board_ok_def register_ok_def statuses_ok_def)

lemma ok_run_undo:
  assumes "undo_ok u" and "statuses_ok (tasks s)" and "register_ok s"
  shows "statuses_ok (tasks (run_undo u s)) \<and> register_ok (run_undo u s)"
  using assms
  by (cases u) (auto simp: statuses_ok_def register_ok_def status_truncate split: option.splits)

lemma ok_undo:
  assumes "board_ok b"
  shows "board_ok (step parseDate (Undo n) b)"
proof (cases "n < length (toasts b)")
  case False
  then show ?thesis using assms by simp
next
  case True
  with assms have "undo_ok (toasts b ! n)" by (simp add: board_ok_def list_all_length)
  from ok_run_undo [OF this] assms True show ?thesis
    by (simp add: board_ok_def list_all_remove_nth)
qed

lemma step_ok:
  assumes "event_ok e" and "board_ok b"
  shows "board_ok (step parseDate e b)"
proof (cases e)
  case LoadStart with assms show ?thesis using ok_load_start by blast
next
  case (LoadDone now q) with assms show ?thesis using ok_load_done by blast
next
  case (Submit clock f) with assms show ?thesis using ok_submit by blast
next
  case (Drop i col) with assms show ?thesis using ok_drop by blast
next
  case (TogglePin i) with assms show ?thesis using ok_pin by blast
next
  case (Duplicate clock i) with assms show ?thesis using ok_duplicate by blast
next
  case (Delete now i) with assms show ?thesis using ok_delete by blast
next
  case ClearBoard with assms show ?thesis using ok_clear by blast
next
  case (Undo n) with assms show ?thesis using ok_undo by blast
next
  case (Dismiss n) with assms show ?thesis
    by (simp add: board_ok_def list_all_remove_nth)
next
  case ToggleSort with assms show ?thesis
    by (simp add: board_ok_def toggleSortOrder_def register_ok_def)
next
  case (Search q) with assms show ?thesis by (simp add: board_ok_def register_ok_def)
next
  case (PriorityFilter p) with assms show ?thesis by (simp add: board_ok_def register_ok_def)
qed

lemma run_ok:
  assumes "list_all event_ok evs" and "board_ok b"
  shows "board_ok (run parseDate evs b)"
  using assms unfolding run_def
  by (induction evs arbitrary: b) (simp_all add: step_ok)

lemma initial_board_ok: "board_ok initial_board"
  by (simp add: board_ok_def initial_board_def initial_state_def statuses_ok_def register_ok_def)

text \<open>
  Claim C3, as the code has it. From the empty board, after any sequence of loads, form
  submissions, drops, pin toggles, duplications, deletions, clears, undos and changes of
  the view criteria, every task of the store has a status among \<open>todo\<close>, \<open>progress\<close> and
  \<open>done\<close>, provided every loaded document carries such a status, every submitted form
  holds one in its status field and every drop is on one of the three columns.
\<close>

theorem status_invariant:
  assumes "list_all event_ok evs"
  shows "\<forall>t \<in> set (tasks (st (run parseDate evs initial_board))). status t \<in> {''todo'', ''progress'', ''done''}"
  using run_ok [OF assms initial_board_ok, of parseDate]
  by (simp add: board_ok_def statuses_ok_def list_all_iff COLUMNS_def)

theorem status_invariant_witness:
  "list_all event_ok
     [LoadStart, LoadDone 7 (Some [ex_doc ''r1'' ''todo'', ex_doc ''r2'' ''done'']),
      Submit (8, 9, 10) (ex_form [] ''progress''), Drop ''r1'' ''done'', Duplicate (11, 12, 13) ''r2'',
      Delete 14 ''r1'', ClearBoard, Undo 1, Undo 0] \<and>
   map status (tasks (st (run (\<lambda>x. None)
     [LoadStart, LoadDone 7 (Some [ex_doc ''r1'' ''todo'', ex_doc ''r2'' ''done'']),
      Submit (8, 9, 10) (ex_form [] ''progress''), Drop ''r1'' ''done'', Duplicate (11, 12, 13) ''r2'',
      Delete 14 ''r1'', ClearBoard, Undo 1, Undo 0] initial_board))) =
     [''done'', ''done'', ''progress'', ''done'']"
  using status_invariant [of
     "[LoadStart, LoadDone 7 (Some [ex_doc ''r1'' ''todo'', ex_doc ''r2'' ''done'']),
      Submit (8, 9, 10) (ex_form [] ''progress''), Drop ''r1'' ''done'', Duplicate (11, 12, 13) ''r2'',
      Delete 14 ''r1'', ClearBoard, Undo 1, Undo 0]" "\<lambda>x. None"]
  by (simp add: run_def with_toast_def deleteTask_def clearBoard_def find_task_def remove_nth_def
      snapshot_fields loadTasksFromFirebase_start_def loadTasksFromFirebase_resume_def task_of_doc_def handleFormSubmit_def Let_def
      updateTaskStatus_def duplicateTask_def json_copy_def form_dueDate_def trim_def is_space_def
      toString.simps digit_char_def COLUMNS_def ex_defs)

text \<open>
  Claim C3, as stated, fails at the load: the status of a remote document is copied into the
  task unchecked, so a document with the status \<open>archived\<close> gives a task outside the three
  columns.
\<close>

theorem load_copies_status_counterexample:
  "tasks (st (run (\<lambda>x. None) [LoadStart, LoadDone 7 (Some [ex_doc ''r1'' ''archived''])] initial_board)) =
     [(ex_task ''r1'' ''archived'' None False)\<lparr>createdAt := 7\<rparr>] \<and>
   \<not> (\<forall>t \<in> set (tasks (st (run (\<lambda>x. None) [LoadStart, LoadDone 7 (Some [ex_doc ''r1'' ''archived''])] initial_board))).
        status t \<in> {''todo'', ''progress'', ''done''})"
  by (simp add: run_def loadTasksFromFirebase_start_def loadTasksFromFirebase_resume_def
      task_of_doc_def ex_defs)

end
